theory Spec2Isabelle
  imports Complex_Main "HOL-Library.Word"
begin

section \<open>Bit generation (\<^verbatim>\<open>generate_random_bits\<close>)\<close>

text \<open>
  A byte of \<^verbatim>\<open>secrets.token_bytes\<close> is an integer in \<open>0..255\<close>: an \<open>8 word\<close>.
\<close>

type_synonym byte = "8 word"

text \<open>
  \<^verbatim>\<open>secrets.token_bytes\<close> is the operating system's generator. It is a parameter of the
  model: asked for \<open>k\<close> bytes in a state \<open>s\<close> of the entropy pool, it either raises (\<open>Inl\<close>)
  or returns bytes (\<open>Inr\<close>), and leaves the pool in a new state.
\<close>

type_synonym ('s, 'e) source = "nat \<Rightarrow> 's \<Rightarrow> ('e + byte list) \<times> 's"

text \<open>
  The world a call runs in: the state of the entropy pool, and the sizes of the requests
  made to the source so far, oldest first.
\<close>

record 's world =
  pool :: 's
  drawn :: "nat list"

definition token_bytes :: "('s, 'e) source \<Rightarrow> nat \<Rightarrow> 's world \<Rightarrow> ('e + byte list) \<times> 's world" where
  "token_bytes src k w =
     (case src k (pool w) of
        (r, s') \<Rightarrow> (r, \<lparr>pool = s', drawn = drawn w @ [k]\<rparr>))"

text \<open>
  \<^verbatim>\<open>f"{b:08b}"\<close>: the binary digits of \<open>b\<close>, most significant first and without leading
  zeros (\<open>0\<close> is the one digit \<open>0\<close>), filled with \<open>0\<close> on the left to a width of at least 8.
\<close>

definition bin_digit :: "nat \<Rightarrow> char" where
  "bin_digit d = (if d = 0 then CHR ''0'' else CHR ''1'')"

fun bin_digits :: "nat \<Rightarrow> string" where
  "bin_digits n = (if n < 2 then [bin_digit n] else bin_digits (n div 2) @ [bin_digit (n mod 2)])"

declare bin_digits.simps [simp del]

definition zero_fill :: "nat \<Rightarrow> string \<Rightarrow> string" where
  "zero_fill width ds = replicate (width - length ds) (CHR ''0'') @ ds"

definition format_08b :: "byte \<Rightarrow> string" where
  "format_08b b = zero_fill 8 (bin_digits (unat b))"

text \<open>
  \<^verbatim>\<open>generate_random_bits(n_bits)\<close>. The early return for \<open>n_bits \<le> 0\<close>, one request of
  \<open>(n_bits + 7) // 8\<close> bytes, an exception of the source passed on as it is (the function
  has no handler), the loop over the bytes as \<open>map\<close>, \<open>"".join\<close> as \<open>concat\<close> and the slice
  \<^verbatim>\<open>bitstring[:n_bits]\<close> (with \<open>n_bits > 0\<close>) as \<open>take\<close>.
\<close>

definition generate_random_bits ::
  "('s, 'e) source \<Rightarrow> int \<Rightarrow> 's world \<Rightarrow> ('e + string) \<times> 's world" where
  "generate_random_bits src n_bits w =
     (if n_bits \<le> 0 then (Inr [], w)
      else
        let n_bytes = nat ((n_bits + 7) div 8) in
        case token_bytes src n_bytes w of
          (Inl e, w') \<Rightarrow> (Inl e, w')
        | (Inr random_bytes, w') \<Rightarrow>
            (Inr (take (nat n_bits) (concat (map format_08b random_bytes))), w'))"

text \<open>
  The exceptions of the runs below that instantiate the source; the functions are
  polymorphic in the exception the source raises. \<open>OSError\<close> is what the operating
  system's generator raises when it cannot deliver. \<open>EntropySourceUnavailable\<close> is the typed
  failure the specification names: no line of the source defines, raises or tests for it.
\<close>

datatype os_failure = OSError | EntropySourceUnavailable

section \<open>Statistics (\<^verbatim>\<open>bit_stats\<close>)\<close>

text \<open>
  The exceptions the arithmetic of \<^verbatim>\<open>bit_stats\<close> can raise: the true division \<^verbatim>\<open>/\<close> by
  zero, and \<^verbatim>\<open>math.log2\<close> outside its domain.
\<close>

datatype py_error = ZeroDivisionError | ValueError

text \<open>
  A Python \<^verbatim>\<open>float\<close> is modelled by the real number it stands for: rounding is not
  modelled. Which operations are executed, and on which side of \<open>0\<close> their arguments lie,
  does not depend on the rounding.
\<close>

definition truediv :: "int \<Rightarrow> int \<Rightarrow> py_error + real" where
  "truediv a b = (if b = 0 then Inl ZeroDivisionError else Inr (real_of_int a / real_of_int b))"

definition log2 :: "real \<Rightarrow> py_error + real" where
  "log2 x = (if 0 < x then Inr (log 2 x) else Inl ValueError)"

text \<open>The local function \<^verbatim>\<open>_h\<close>: \<^verbatim>\<open>-(p * math.log2(p)) if p > 0 else 0.0\<close>.\<close>

definition h :: "real \<Rightarrow> py_error + real" where
  "h p = (if 0 < p then (case log2 p of Inl e \<Rightarrow> Inl e | Inr l \<Rightarrow> Inr (- (p * l))) else Inr 0)"

record stats =
  length_stat :: int
  zeros :: int
  ones :: int
  entropy :: real

text \<open>
  \<^verbatim>\<open>bit_stats(bits)\<close>. \<^verbatim>\<open>bits.count("0")\<close> counts the occurrences of the one-character
  string \<open>0\<close>; \<^verbatim>\<open>zeros / n if n else 0.0\<close> divides only when \<open>n\<close> is not \<open>0\<close>.
\<close>

definition bit_stats :: "string \<Rightarrow> py_error + stats" where
  "bit_stats bits =
     (let n = int (length bits);
          zeros = int (count_list bits (CHR ''0''));
          ones = n - zeros
      in
        case (if n \<noteq> 0 then truediv zeros n else Inr 0) of Inl e \<Rightarrow> Inl e | Inr p0 \<Rightarrow>
        case (if n \<noteq> 0 then truediv ones n else Inr 0) of Inl e \<Rightarrow> Inl e | Inr p1 \<Rightarrow>
        case h p0 of Inl e \<Rightarrow> Inl e | Inr h0 \<Rightarrow>
        case h p1 of Inl e \<Rightarrow> Inl e | Inr h1 \<Rightarrow>
          Inr \<lparr>length_stat = n, zeros = zeros, ones = ones, entropy = h0 + h1\<rparr>)"

section \<open>Request policy (\<^verbatim>\<open>api_generate\<close>)\<close>

definition MAX_BITS :: int where
  "MAX_BITS = 262144"

definition DEFAULT_BITS :: int where
  "DEFAULT_BITS = 256"

text \<open>
  The values \<^verbatim>\<open>length\<close> can hold: a query-string value is a \<^verbatim>\<open>str\<close>, a field of a JSON
  body is any decoded JSON value. A finite float is given by its exact value; a dictionary
  by its items.
\<close>

datatype pyfloat = Finite rat | Infinite | NaN

datatype pyval =
    PyNone
  | PyBool bool
  | PyInt int
  | PyFloat pyfloat
  | PyStr string
  | PyList "pyval list"
  | PyDict "(string \<times> pyval) list"

text \<open>
  What the handler reads of a request: \<^verbatim>\<open>request.args.get("length")\<close>, and the body.
  \<open>NotJson\<close>: \<^verbatim>\<open>request.is_json\<close> is false. \<open>Json v\<close>: it is true and \<^verbatim>\<open>request.json\<close> is
  \<open>v\<close>. \<open>BadJson\<close>: it is true and the body does not decode, so that \<^verbatim>\<open>request.json\<close>
  raises.
\<close>

datatype body = NotJson | Json pyval | BadJson

record request =
  args_length :: "string option"
  body :: body

datatype handler_error = BadRequest | AttributeError

text \<open>
  \<^verbatim>\<open>request.is_json and request.json.get("length")\<close>: \<open>False\<close> when the body is not JSON;
  only a dictionary has \<^verbatim>\<open>get\<close>, which returns \<open>None\<close> for a missing key.
\<close>

definition json_length :: "body \<Rightarrow> handler_error + pyval" where
  "json_length b =
     (case b of
        NotJson \<Rightarrow> Inr (PyBool False)
      | BadJson \<Rightarrow> Inl BadRequest
      | Json (PyDict items) \<Rightarrow>
          Inr (case map_of items ''length'' of None \<Rightarrow> PyNone | Some v \<Rightarrow> v)
      | Json _ \<Rightarrow> Inl AttributeError)"

text \<open>
  \<^verbatim>\<open>length = request.args.get("length") or (...)\<close>: the query-string value when it is
  truthy (a string that is not empty), the second operand otherwise.
\<close>

definition read_length :: "request \<Rightarrow> handler_error + pyval" where
  "read_length req =
     (case args_length req of
        Some s \<Rightarrow> if s \<noteq> [] then Inr (PyStr s) else json_length (body req)
      | None \<Rightarrow> json_length (body req))"

text \<open>
  \<^verbatim>\<open>int(length)\<close>, \<open>None\<close> when it raises. The built-in's reading of a string is the
  parameter \<open>parse\<close>. A bool is \<open>0\<close> or \<open>1\<close>; a finite float is truncated towards zero, an
  infinity or a NaN raises; \<open>None\<close>, a list and a dictionary raise.
\<close>

definition int_of_float :: "rat \<Rightarrow> int" where
  "int_of_float q = (if 0 \<le> q then \<lfloor>q\<rfloor> else \<lceil>q\<rceil>)"

fun py_int :: "(string \<Rightarrow> int option) \<Rightarrow> pyval \<Rightarrow> int option" where
  "py_int parse PyNone = None"
| "py_int parse (PyBool b) = Some (if b then 1 else 0)"
| "py_int parse (PyInt i) = Some i"
| "py_int parse (PyFloat (Finite q)) = Some (int_of_float q)"
| "py_int parse (PyFloat Infinite) = None"
| "py_int parse (PyFloat NaN) = None"
| "py_int parse (PyStr s) = parse s"
| "py_int parse (PyList xs) = None"
| "py_int parse (PyDict items) = None"

text \<open>
  Lines 104 to 109, on the value \<open>raw_length\<close> of \<^verbatim>\<open>length\<close>: \<^verbatim>\<open>int(length) if length is not None else DEFAULT_BITS\<close>, with
  \<^verbatim>\<open>DEFAULT_BITS\<close> again when the conversion raises, then
  \<^verbatim>\<open>max(1, min(int(n_bits), MAX_BITS))\<close>.
\<close>

definition resolve_length :: "(string \<Rightarrow> int option) \<Rightarrow> pyval \<Rightarrow> int" where
  "resolve_length parse raw_length =
     (let n_bits =
            (if raw_length \<noteq> PyNone
             then (case py_int parse raw_length of Some v \<Rightarrow> v | None \<Rightarrow> DEFAULT_BITS)
             else DEFAULT_BITS)
      in max 1 (min n_bits MAX_BITS))"

text \<open>The effective length of a request: what \<^verbatim>\<open>generate_random_bits\<close> is called with.\<close>

definition effective_length :: "(string \<Rightarrow> int option) \<Rightarrow> request \<Rightarrow> handler_error + int" where
  "effective_length parse req =
     (case read_length req of Inl e \<Rightarrow> Inl e | Inr raw_length \<Rightarrow> Inr (resolve_length parse raw_length))"

text \<open>
  \<^verbatim>\<open>api_generate\<close>: the response carries the bits and their statistics. The duration and
  the timestamp, read from clocks, and the constant \<^verbatim>\<open>source\<close> are left out. An
  exception of any step ends the handler.
\<close>

datatype 'e failure = Handler handler_error | Source 'e | Stats py_error

record response =
  resp_bits :: string
  resp_stats :: stats

definition api_generate ::
  "(string \<Rightarrow> int option) \<Rightarrow> ('s, 'e) source \<Rightarrow> request \<Rightarrow> 's world
     \<Rightarrow> ('e failure + response) \<times> 's world" where
  "api_generate parse src req w =
     (case effective_length parse req of
        Inl e \<Rightarrow> (Inl (Handler e), w)
      | Inr n_bits \<Rightarrow>
          (case generate_random_bits src n_bits w of
             (Inl e, w') \<Rightarrow> (Inl (Source e), w')
           | (Inr bits, w') \<Rightarrow>
               (case bit_stats bits of
                  Inl e \<Rightarrow> (Inl (Stats e), w')
                | Inr st \<Rightarrow> (Inr \<lparr>resp_bits = bits, resp_stats = st\<rparr>, w'))))"

section \<open>Properties of the byte expansion\<close>

lemma bin_digits_small: "n < 2 \<Longrightarrow> bin_digits n = [bin_digit n]"
  by (simp add: bin_digits.simps)

lemma bin_digits_large: "2 \<le> n \<Longrightarrow> bin_digits n = bin_digits (n div 2) @ [bin_digit (n mod 2)]"
  by (subst bin_digits.simps) simp

lemma length_bin_digits: "0 < k \<Longrightarrow> n < 2 ^ k \<Longrightarrow> length (bin_digits n) \<le> k"
proof (induction k arbitrary: n)
  case 0
  then show ?case by simp
next
  case (Suc k)
  show ?case
  proof (cases "n < 2")
    case True
    then show ?thesis by (simp add: bin_digits_small)
  next
    case False
    then have k: "0 < k" using Suc.prems by (cases k) auto
    have "n div 2 < 2 ^ k" using Suc.prems by auto
    with k Suc.IH have "length (bin_digits (n div 2)) \<le> k" by blast
    with False show ?thesis by (simp add: bin_digits_large)
  qed
qed

lemma zero_fill_step:
  assumes "0 < k" and "n < 2 ^ Suc k"
  shows "zero_fill (Suc k) (bin_digits n) = zero_fill k (bin_digits (n div 2)) @ [bin_digit (n mod 2)]"
proof (cases "n < 2")
  case True
  then have "n div 2 = 0" "n mod 2 = n" by auto
  moreover have "replicate (k - Suc 0) (CHR ''0'') @ [CHR ''0''] = replicate k (CHR ''0'')"
    using assms(1) by (cases k) (simp_all add: replicate_append_same)
  ultimately show ?thesis using True
    by (simp add: zero_fill_def bin_digits_small bin_digit_def)
next
  case False
  have "n div 2 < 2 ^ k" using assms(2) by auto
  then have "length (bin_digits (n div 2)) \<le> k" using assms(1) by (rule length_bin_digits[rotated])
  with False show ?thesis by (simp add: zero_fill_def bin_digits_large)
qed

lemma zero_fill_bits:
  "0 < k \<Longrightarrow> n < 2 ^ k \<Longrightarrow>
   length (zero_fill k (bin_digits n)) = k \<and>
   (\<forall>i<k. zero_fill k (bin_digits n) ! i = bin_digit (n div 2 ^ (k - 1 - i) mod 2))"
proof (induction k arbitrary: n)
  case 0
  then show ?case by simp
next
  case (Suc k)
  show ?case
  proof (cases "k = 0")
    case True
    with Suc.prems have "n < 2" by simp
    with True show ?thesis by (simp add: zero_fill_def bin_digits_small)
  next
    case False
    then have k: "0 < k" by simp
    have lt: "n div 2 < 2 ^ k" using Suc.prems by auto
    note IH = Suc.IH [OF k lt]
    have step: "zero_fill (Suc k) (bin_digits n) = zero_fill k (bin_digits (n div 2)) @ [bin_digit (n mod 2)]"
      using k Suc.prems(2) by (rule zero_fill_step)
    have len: "length (zero_fill (Suc k) (bin_digits n)) = Suc k"
      using IH by (simp add: step)
    have nth: "zero_fill (Suc k) (bin_digits n) ! i = bin_digit (n div 2 ^ (Suc k - 1 - i) mod 2)"
      if "i < Suc k" for i
    proof (cases "i < k")
      case True
      then have "zero_fill (Suc k) (bin_digits n) ! i = bin_digit (n div 2 div 2 ^ (k - 1 - i) mod 2)"
        using IH by (simp add: step nth_append)
      also have "n div 2 div 2 ^ (k - 1 - i) = n div 2 ^ (Suc (k - 1 - i))"
        by (simp add: div_mult2_eq)
      also have "Suc (k - 1 - i) = Suc k - 1 - i" using True by simp
      finally show ?thesis .
    next
      case False
      with that have "i = k" by simp
      then show ?thesis using IH by (simp add: step nth_append)
    qed
    show ?thesis using len nth by blast
  qed
qed

lemma length_format_08b: "length (format_08b b) = 8"
proof -
  have "unat b < 2 ^ 8" using unsigned_less [of b] by simp
  then show ?thesis using zero_fill_bits [of 8 "unat b"] by (simp add: format_08b_def)
qed

lemma nth_format_08b:
  assumes "i < 8"
  shows "format_08b b ! i = (if bit b (7 - i) then CHR ''1'' else CHR ''0'')"
proof -
  have "unat b < 2 ^ 8" using unsigned_less [of b] by simp
  then have "format_08b b ! i = bin_digit (unat b div 2 ^ (7 - i) mod 2)"
    using zero_fill_bits [of 8 "unat b"] assms by (simp add: format_08b_def)
  moreover have "bit b (7 - i) \<longleftrightarrow> bit (unat b) (7 - i)"
    by (simp add: bit_unsigned_iff)
  then have "bit b (7 - i) \<longleftrightarrow> odd (unat b div 2 ^ (7 - i))"
    by (simp add: bit_iff_odd)
  ultimately show ?thesis by (auto simp: bin_digit_def odd_iff_mod_2_eq_one)
qed


lemma set_format_08b: "set (format_08b b) \<subseteq> {CHR ''0'', CHR ''1''}"
proof
  fix c assume "c \<in> set (format_08b b)"
  then obtain i where "i < 8" "c = format_08b b ! i"
    by (auto simp: in_set_conv_nth length_format_08b)
  then show "c \<in> {CHR ''0'', CHR ''1''}" by (simp add: nth_format_08b)
qed

lemma length_concat_format_08b: "length (concat (map format_08b bs)) = 8 * length bs"
  by (induction bs) (simp_all add: length_format_08b)

lemma set_concat_format_08b: "set (concat (map format_08b bs)) \<subseteq> {CHR ''0'', CHR ''1''}"
  using set_format_08b by fastforce

lemma nth_concat_format_08b:
  "i < 8 * length bs \<Longrightarrow> concat (map format_08b bs) ! i = format_08b (bs ! (i div 8)) ! (i mod 8)"
proof (induction bs arbitrary: i)
  case Nil
  then show ?case by simp
next
  case (Cons b bs)
  show ?case
  proof (cases "i < 8")
    case True
    then show ?thesis by (simp add: nth_append length_format_08b)
  next
    case False
    then have "i - 8 < 8 * length bs" using Cons.prems by simp
    then have "concat (map format_08b bs) ! (i - 8) = format_08b (bs ! ((i - 8) div 8)) ! ((i - 8) mod 8)"
      by (rule Cons.IH)
    moreover have "i div 8 = Suc ((i - 8) div 8)" "(i - 8) mod 8 = i mod 8"
      using False by (simp_all add: le_div_geq le_mod_geq)
    ultimately show ?thesis using False by (simp add: nth_append length_format_08b)
  qed
qed

lemma n_bytes_ceiling: "(n + 7) div 8 = \<lceil>real_of_int n / 8\<rceil>" for n :: int
proof -
  have "\<lceil>real_of_int n / real_of_int 8\<rceil> = - (- n div 8)" by (rule ceiling_divide_eq_div)
  also have "\<dots> = (n + 7) div 8" by presburger
  finally show ?thesis by simp
qed

lemma generate_random_bits_pos:
  assumes "0 < n" and "src (nat ((n + 7) div 8)) (pool w) = (r, s')"
  shows "generate_random_bits src n w =
     (case r of Inl e \<Rightarrow> Inl e | Inr bs \<Rightarrow> Inr (take (nat n) (concat (map format_08b bs))),
      \<lparr>pool = s', drawn = drawn w @ [nat ((n + 7) div 8)]\<rparr>)"
  using assms by (simp add: generate_random_bits_def token_bytes_def split: sum.splits)

lemma covers: "0 < n \<Longrightarrow> nat n \<le> 8 * nat ((n + 7) div 8)" for n :: int
  by linarith

lemma excess: "0 < n \<Longrightarrow> 8 * nat ((n + 7) div 8) - nat n < 8" for n :: int
  by linarith

section \<open>Properties of \<^verbatim>\<open>generate_random_bits\<close>\<close>


text \<open>
  Claim C2. For every \<open>n\<close> from \<open>0\<close> to \<open>MAX_BITS\<close>, \<^verbatim>\<open>generate_random_bits(n)\<close> returns
  a string of exactly \<open>n\<close> characters, each \<open>0\<close> or \<open>1\<close>. For \<open>n > 0\<close> this is a run in which
  the source answers the one request with as many bytes as it was asked for, which is what
  \<^verbatim>\<open>secrets.token_bytes\<close> does when it does not raise; for \<open>n = 0\<close> nothing is asked of
  the source.
\<close>

theorem generate_random_bits_length_alphabet:
  assumes "0 \<le> n" and "n \<le> MAX_BITS"
    and "n = 0 \<or> (fst (src (nat ((n + 7) div 8)) (pool w)) = Inr bs
                  \<and> length bs = nat ((n + 7) div 8))"
  shows "\<exists>bits. fst (generate_random_bits src n w) = Inr bits
           \<and> int (length bits) = n \<and> set bits \<subseteq> {CHR ''0'', CHR ''1''}"
proof (cases "n = 0")
  case True
  then show ?thesis by (simp add: generate_random_bits_def)
next
  case False
  with assms have pos: "0 < n"
    and src: "fst (src (nat ((n + 7) div 8)) (pool w)) = Inr bs"
    and len: "length bs = nat ((n + 7) div 8)" by auto
  obtain s' where "src (nat ((n + 7) div 8)) (pool w) = (Inr bs, s')"
    using src by (cases "src (nat ((n + 7) div 8)) (pool w)") simp
  then have res: "fst (generate_random_bits src n w) = Inr (take (nat n) (concat (map format_08b bs)))"
    using pos by (simp add: generate_random_bits_pos)
  have "nat n \<le> 8 * length bs" using pos len by (simp add: covers)
  then have "length (take (nat n) (concat (map format_08b bs))) = nat n"
    by (simp add: length_concat_format_08b)
  moreover have "set (take (nat n) (concat (map format_08b bs))) \<subseteq> {CHR ''0'', CHR ''1''}"
    using set_take_subset set_concat_format_08b by (rule subset_trans)
  ultimately show ?thesis using res pos by simp
qed

text \<open>A run of 13 bits over a source that answers every request with bytes \<open>0xA5\<close>.\<close>

theorem generate_random_bits_length_alphabet_witness:
  "\<exists>bits. fst (generate_random_bits (\<lambda>k s. (Inr (replicate k (0xA5 :: byte)) :: os_failure + byte list, Suc s)) 13
                  \<lparr>pool = 0 :: nat, drawn = []\<rparr>) = Inr bits
      \<and> int (length bits) = 13 \<and> set bits \<subseteq> {CHR ''0'', CHR ''1''}"
  using generate_random_bits_length_alphabet
    [of 13 "\<lambda>k s. (Inr (replicate k (0xA5 :: byte)) :: os_failure + byte list, Suc s)"
        "\<lparr>pool = 0 :: nat, drawn = []\<rparr>" "replicate 2 0xA5"]
  by (simp add: MAX_BITS_def)



text \<open>
  Claim C9. For every integer \<open>n \<le> 0\<close>, negative ones included, \<^verbatim>\<open>generate_random_bits(n)\<close>
  returns the empty string and leaves the world as it found it, whatever the source is: the
  entropy pool is in the same state and the list of requests made to the source has not grown.
  The function being a total HOL function of an \<open>int\<close>, it is defined on all integers.
\<close>

theorem generate_random_bits_nonpositive:
  "n \<le> 0 \<Longrightarrow> generate_random_bits src n w = (Inr [], w)"
  by (simp add: generate_random_bits_def)

text \<open>A run at \<open>-5\<close> over a source that would fail if it were asked.\<close>

theorem generate_random_bits_nonpositive_witness:
  "(-5 :: int) \<le> 0 \<and>
   generate_random_bits (\<lambda>k s. (Inl EntropySourceUnavailable, Suc s)) (-5) \<lparr>pool = 0 :: nat, drawn = []\<rparr>
     = (Inr [], \<lparr>pool = 0, drawn = []\<rparr>)"
  using generate_random_bits_nonpositive
    [of "-5" "\<lambda>k s. (Inl EntropySourceUnavailable, Suc s)" "\<lparr>pool = 0 :: nat, drawn = []\<rparr>"]
  by simp

text \<open>
  Claim C8, as amended. When the source fails to produce the bytes it is asked for, raising
  \<open>e\<close>, \<^verbatim>\<open>generate_random_bits\<close> fails with that same \<open>e\<close>, as the source raised it: the
  function has no handler and wraps the exception in no type of its own. It returns no
  sequence, and the one request that failed is the only one made, so nothing else was drawn
  in its place.
\<close>

theorem generate_random_bits_failure:
  assumes "0 < n" and "fst (src (nat ((n + 7) div 8)) (pool w)) = Inl e"
  shows "fst (generate_random_bits src n w) = Inl e
       \<and> (\<forall>bits. fst (generate_random_bits src n w) \<noteq> Inr bits)
       \<and> drawn (snd (generate_random_bits src n w)) = drawn w @ [nat ((n + 7) div 8)]"
proof -
  obtain s' where "src (nat ((n + 7) div 8)) (pool w) = (Inl e, s')"
    using assms(2) by (cases "src (nat ((n + 7) div 8)) (pool w)") simp
  then show ?thesis using assms(1) by (simp add: generate_random_bits_pos)
qed

text \<open>A run of 16 bits over a source that always fails with \<open>OSError\<close>.\<close>

theorem generate_random_bits_failure_witness:
  "fst (generate_random_bits (\<lambda>k s. (Inl OSError, Suc s)) 16 \<lparr>pool = 0 :: nat, drawn = []\<rparr>)
     = Inl OSError
   \<and> drawn (snd (generate_random_bits (\<lambda>k s. (Inl OSError, Suc s)) 16
        \<lparr>pool = 0 :: nat, drawn = []\<rparr>)) = [2]"
  using generate_random_bits_failure
    [of 16 "\<lambda>k s. (Inl OSError, Suc s)" "\<lparr>pool = 0 :: nat, drawn = []\<rparr>" OSError]
  by simp

text \<open>
  Claim C8 as it is written, that the failure is an \<^verbatim>\<open>EntropySourceUnavailable\<close> error,
  does not hold: over a source that fails with \<open>OSError\<close>, the function fails with
  \<open>OSError\<close>.
\<close>

theorem generate_random_bits_failure_untyped:
  "fst (generate_random_bits (\<lambda>k s. (Inl OSError, Suc s)) 16 \<lparr>pool = 0 :: nat, drawn = []\<rparr>)
     = Inl OSError
   \<and> fst (generate_random_bits (\<lambda>k s. (Inl OSError, Suc s)) 16 \<lparr>pool = 0 :: nat, drawn = []\<rparr>)
     \<noteq> Inl EntropySourceUnavailable"
  by (simp add: generate_random_bits_def token_bytes_def)

lemma concat_format_08b_last:
  assumes "bs \<noteq> []" and "8 * (length bs - 1) \<le> m"
  shows "drop m (concat (map format_08b bs)) = drop (m - 8 * (length bs - 1)) (format_08b (last bs))"
proof -
  have "bs = butlast bs @ [last bs]" using assms(1) by simp
  then have "concat (map format_08b bs) = concat (map format_08b (butlast bs)) @ format_08b (last bs)"
    by (metis (no_types) concat_append concat.simps map_append list.simps(8,9) append_Nil2)
  then show ?thesis using assms(2) by (simp add: length_concat_format_08b)
qed

text \<open>
  Claim C3. For every \<open>n > 0\<close>, \<^verbatim>\<open>generate_random_bits(n)\<close> makes one request to the
  source, of \<open>\<lceil>n / 8\<rceil>\<close> bytes. For every answer \<open>bs\<close> of that size, each byte is expanded to its
  8 binary digits, most significant first, in byte order; the result is the first \<open>n\<close> symbols
  of that expansion, and what is cut off is fewer than 8 symbols, the last ones of the last
  byte's expansion (its low-order bits). So bit \<open>i\<close> of the result is bit \<open>7 - i mod 8\<close> of
  byte \<open>i div 8\<close>.
\<close>

theorem generate_random_bits_layout:
  assumes "0 < n"
    and "src (nat ((n + 7) div 8)) (pool w) = (Inr bs, s')"
    and "length bs = nat ((n + 7) div 8)"
  shows "\<exists>bits rest.
      generate_random_bits src n w = (Inr bits, \<lparr>pool = s', drawn = drawn w @ [nat \<lceil>real_of_int n / 8\<rceil>]\<rparr>)
    \<and> (\<forall>j<length bs. \<forall>m<8. concat (map format_08b bs) ! (8 * j + m)
            = (if bit (bs ! j) (7 - m) then CHR ''1'' else CHR ''0''))
    \<and> concat (map format_08b bs) = bits @ rest
    \<and> int (length bits) = n
    \<and> length rest < 8
    \<and> rest = drop (8 - length rest) (format_08b (last bs))
    \<and> (\<forall>i<nat n. bits ! i = (if bit (bs ! (i div 8)) (7 - i mod 8) then CHR ''1'' else CHR ''0''))"
proof -
  let ?k = "nat ((n + 7) div 8)"
  let ?full = "concat (map format_08b bs)"
  let ?bits = "take (nat n) ?full"
  let ?rest = "drop (nat n) ?full"
  have run: "generate_random_bits src n w = (Inr ?bits, \<lparr>pool = s', drawn = drawn w @ [nat \<lceil>real_of_int n / 8\<rceil>]\<rparr>)"
    using assms(1,2) by (simp add: generate_random_bits_pos flip: n_bytes_ceiling)
  have full: "length ?full = 8 * ?k" by (simp add: length_concat_format_08b assms(3))
  have cov: "nat n \<le> 8 * ?k" and exc: "8 * ?k - nat n < 8"
    using assms(1) by (rule covers, rule excess)
  have expand: "?full ! (8 * j + m) = (if bit (bs ! j) (7 - m) then CHR ''1'' else CHR ''0'')"
    if "j < length bs" "m < 8" for j m
  proof -
    have "8 * j + m < 8 * length bs" using that by simp
    then have "?full ! (8 * j + m) = format_08b (bs ! ((8 * j + m) div 8)) ! ((8 * j + m) mod 8)"
      by (rule nth_concat_format_08b)
    then show ?thesis using that(2) by (simp add: nth_format_08b)
  qed
  have len_bits: "int (length ?bits) = n" using cov full assms(1) by simp
  have len_rest: "length ?rest = 8 * ?k - nat n" using full by simp
  have ne: "bs \<noteq> []" using assms(1,3) by auto
  have "8 * (length bs - 1) \<le> nat n" using assms(1,3) by linarith
  with ne have "?rest = drop (nat n - 8 * (length bs - 1)) (format_08b (last bs))"
    by (rule concat_format_08b_last)
  moreover have "nat n - 8 * (length bs - 1) = 8 - length ?rest"
    unfolding len_rest using assms(1,3) by linarith
  ultimately have rest: "?rest = drop (8 - length ?rest) (format_08b (last bs))" by simp
  have bitsnth: "?bits ! i = (if bit (bs ! (i div 8)) (7 - i mod 8) then CHR ''1'' else CHR ''0'')"
    if "i < nat n" for i
  proof -
    have i: "i < 8 * length bs" using that cov assms(3) by simp
    have "?bits ! i = ?full ! i" using that by simp
    also have "\<dots> = format_08b (bs ! (i div 8)) ! (i mod 8)" using i by (rule nth_concat_format_08b)
    finally show ?thesis by (simp add: nth_format_08b)
  qed
  have split: "?full = ?bits @ ?rest" by simp
  have lr: "length ?rest < 8" using len_rest exc by simp
  show ?thesis
  proof (intro exI conjI)
    show "generate_random_bits src n w
        = (Inr ?bits, \<lparr>pool = s', drawn = drawn w @ [nat \<lceil>real_of_int n / 8\<rceil>]\<rparr>)"
      by (rule run)
    show "\<forall>j<length bs. \<forall>m<8. ?full ! (8 * j + m)
            = (if bit (bs ! j) (7 - m) then CHR ''1'' else CHR ''0'')"
      using expand by blast
    show "?full = ?bits @ ?rest" by (rule split)
    show "int (length ?bits) = n" by (rule len_bits)
    show "length ?rest < 8" by (rule lr)
    show "?rest = drop (8 - length ?rest) (format_08b (last bs))" by (rule rest)
    show "\<forall>i<nat n. ?bits ! i = (if bit (bs ! (i div 8)) (7 - i mod 8) then CHR ''1'' else CHR ''0'')"
      using bitsnth by blast
  qed
qed


text \<open>A run of 13 bits: two bytes are requested and three symbols are cut off.\<close>

theorem generate_random_bits_layout_witness:
  "\<exists>bits rest.
      generate_random_bits (\<lambda>k s. (Inr (replicate k (0xA5 :: byte)) :: os_failure + byte list, Suc s)) 13
          \<lparr>pool = 0 :: nat, drawn = []\<rparr>
        = (Inr bits, \<lparr>pool = 1, drawn = [2]\<rparr>)
    \<and> concat (map format_08b [0xA5, 0xA5]) = bits @ rest
    \<and> int (length bits) = 13
    \<and> length rest < 8"
proof -
  let ?src = "\<lambda>k s. (Inr (replicate k (0xA5 :: byte)) :: os_failure + byte list, Suc s)"
  let ?w = "\<lparr>pool = 0 :: nat, drawn = []\<rparr>"
  have h1: "(0 :: int) < 13" by simp
  have h2: "?src (nat ((13 + 7) div 8)) (pool ?w) = (Inr [0xA5, 0xA5], 1)"
    by (simp add: numeral_2_eq_2)
  have h3: "length [0xA5, 0xA5 :: byte] = nat ((13 + 7) div 8)" by simp
  have c: "nat \<lceil>real_of_int 13 / 8\<rceil> = 2" by (simp flip: n_bytes_ceiling)
  obtain bits rest where
      "generate_random_bits ?src 13 ?w = (Inr bits, \<lparr>pool = 1, drawn = drawn ?w @ [nat \<lceil>real_of_int 13 / 8\<rceil>]\<rparr>)"
      "concat (map format_08b [0xA5, 0xA5]) = bits @ rest"
      "int (length bits) = 13" "length rest < 8"
    using generate_random_bits_layout [of 13 ?src ?w "[0xA5, 0xA5]" 1] h1 h2 h3 by blast
  then show ?thesis unfolding c by (intro exI conjI) simp_all
qed

section \<open>Properties of \<^verbatim>\<open>bit_stats\<close>\<close>

lemma h_eq: "h p = Inr (if 0 < p then - (p * log 2 p) else 0)"
  by (simp add: h_def log2_def)

lemma guarded_truediv:
  "(if n \<noteq> 0 then truediv a n else Inr 0) = Inr (if n \<noteq> 0 then real_of_int a / real_of_int n else 0)"
  by (simp add: truediv_def)

lemma bit_stats_eq:
  "bit_stats bits =
     Inr \<lparr>length_stat = int (length bits),
          zeros = int (count_list bits (CHR ''0'')),
          ones = int (length bits) - int (count_list bits (CHR ''0'')),
          entropy =
            (let n = int (length bits);
                 p0 = (if n \<noteq> 0 then real_of_int (int (count_list bits (CHR ''0''))) / real_of_int n else 0);
                 p1 = (if n \<noteq> 0 then real_of_int (n - int (count_list bits (CHR ''0''))) / real_of_int n else 0)
             in (if 0 < p0 then - (p0 * log 2 p0) else 0) + (if 0 < p1 then - (p1 * log 2 p1) else 0))\<rparr>"
  unfolding bit_stats_def Let_def guarded_truediv h_eq by simp

lemma count_list_filter: "count_list xs x = length (filter (\<lambda>y. y = x) xs)"
  by (induction xs) simp_all

lemma count_binary:
  "set bits \<subseteq> {a, b} \<Longrightarrow> a \<noteq> b \<Longrightarrow> count_list bits a + count_list bits b = length bits"
  by (induction bits) auto

lemma count_others: "count_list xs x + length (filter (\<lambda>y. y \<noteq> x) xs) = length xs"
  by (induction xs) simp_all

text \<open>
  Claim C4. For every bit string, \<^verbatim>\<open>bit_stats\<close> returns \<open>zeros\<close> equal to the number of
  \<open>0\<close> symbols and \<open>ones\<close> equal to the length minus \<open>zeros\<close>, so that
  \<open>zeros + ones = length\<close>; on a bit string \<open>ones\<close> is then the number of \<open>1\<close> symbols.
\<close>

theorem bit_stats_counts:
  assumes "set bits \<subseteq> {CHR ''0'', CHR ''1''}"
  shows "\<exists>st. bit_stats bits = Inr st
      \<and> length_stat st = int (length bits)
      \<and> zeros st = int (length (filter (\<lambda>c. c = CHR ''0'') bits))
      \<and> ones st = length_stat st - zeros st
      \<and> ones st = int (length (filter (\<lambda>c. c = CHR ''1'') bits))
      \<and> zeros st + ones st = length_stat st"
proof -
  have "count_list bits (CHR ''0'') + count_list bits (CHR ''1'') = length bits"
    using assms by (rule count_binary) simp
  then have "int (length bits) - int (count_list bits (CHR ''0'')) = int (count_list bits (CHR ''1''))"
    by linarith
  then show ?thesis by (simp add: bit_stats_eq count_list_filter)
qed

text \<open>The statistics of a string of 7 bits.\<close>

theorem bit_stats_counts_witness:
  "set ''0110100'' \<subseteq> {CHR ''0'', CHR ''1''}
   \<and> (\<exists>st. bit_stats ''0110100'' = Inr st \<and> length_stat st = 7 \<and> zeros st = 4 \<and> ones st = 3)"
  using bit_stats_counts [of "''0110100''"] by auto

text \<open>
  Claim C10. \<^verbatim>\<open>bit_stats\<close> is defined on every string, whatever its characters: \<open>zeros\<close>
  is the number of \<open>0\<close> characters and \<open>ones\<close> is the length minus that number, which is
  the number of characters other than \<open>0\<close>, not the number of \<open>1\<close> characters; and
  \<open>zeros + ones = length\<close>.
\<close>

theorem bit_stats_any_string:
  "\<exists>st. bit_stats s = Inr st
      \<and> length_stat st = int (length s)
      \<and> zeros st = int (length (filter (\<lambda>c. c = CHR ''0'') s))
      \<and> ones st = int (length s) - zeros st
      \<and> ones st = int (length (filter (\<lambda>c. c \<noteq> CHR ''0'') s))
      \<and> zeros st + ones st = length_stat st"
proof -
  have "int (length s) - int (count_list s (CHR ''0'')) = int (length (filter (\<lambda>c. c \<noteq> CHR ''0'') s))"
    using count_others [of s "CHR ''0''"] by linarith
  then show ?thesis by (simp add: bit_stats_eq count_list_filter)
qed

text \<open>
  Claim C5. \<^verbatim>\<open>bit_stats\<close> returns on every string: no step raises. \<^verbatim>\<open>_h\<close> returns on
  every \<open>p\<close>, and at \<open>p = 0\<close> it returns \<open>0\<close> through its guard, where \<^verbatim>\<open>math.log2\<close>
  would have raised; on the empty string, where a division would have raised, both counts and
  the entropy are \<open>0\<close>.
\<close>

theorem bit_stats_total:
  "(\<exists>st. bit_stats bits = Inr st)
   \<and> (\<exists>v. h p = Inr v)
   \<and> h 0 = Inr 0
   \<and> log2 0 = Inl ValueError
   \<and> truediv 0 0 = Inl ZeroDivisionError
   \<and> bit_stats [] = Inr \<lparr>length_stat = 0, zeros = 0, ones = 0, entropy = 0\<rparr>"
  by (simp add: bit_stats_eq h_eq log2_def truediv_def)






section \<open>Properties of the request policy\<close>

lemma resolve_length_range: "1 \<le> resolve_length parse raw \<and> resolve_length parse raw \<le> MAX_BITS"
  by (simp add: resolve_length_def Let_def MAX_BITS_def)

lemma resolve_length_parsed:
  "py_int parse raw = Some v \<Longrightarrow> resolve_length parse raw = max 1 (min v MAX_BITS)"
  by (cases raw) (simp_all add: resolve_length_def)

lemma resolve_length_default:
  "raw = PyNone \<or> py_int parse raw = None \<Longrightarrow> resolve_length parse raw = DEFAULT_BITS"
  by (auto simp: resolve_length_def DEFAULT_BITS_def MAX_BITS_def)

text \<open>
  Where the default is reached: when \<^verbatim>\<open>length\<close> is \<open>None\<close>, and when \<^verbatim>\<open>int(length)\<close>
  raises.
\<close>

lemma effective_length_default:
  "read_length req = Inr raw \<Longrightarrow> raw = PyNone \<or> py_int parse raw = None \<Longrightarrow>
   effective_length parse req = Inr 256"
  by (simp add: effective_length_def resolve_length_default DEFAULT_BITS_def)

text \<open>
  Claim C7. When the raw length converts to an integer \<open>v\<close>, the effective length is \<open>v\<close>
  clamped into \<open>1..MAX_BITS\<close>: \<open>1\<close> below \<open>1\<close>, \<open>MAX_BITS\<close> above \<open>MAX_BITS\<close>; the clamp is a
  value, never an error. Every effective length, of any request, lies between \<open>1\<close> and
  \<open>MAX_BITS = 262144\<close>.
\<close>

theorem effective_length_clamped:
  assumes "read_length req = Inr raw" and "py_int parse raw = Some v"
  shows "effective_length parse req = Inr (max 1 (min v MAX_BITS))
       \<and> max 1 (min v MAX_BITS) = (if v < 1 then 1 else if MAX_BITS < v then MAX_BITS else v)
       \<and> (\<forall>req' n. effective_length parse' req' = Inr n \<longrightarrow> 1 \<le> n \<and> n \<le> MAX_BITS)
       \<and> MAX_BITS = 262144"
proof -
  have "effective_length parse req = Inr (max 1 (min v MAX_BITS))"
    using assms by (simp add: effective_length_def resolve_length_parsed)
  moreover have "max 1 (min v MAX_BITS) = (if v < 1 then 1 else if MAX_BITS < v then MAX_BITS else v)"
    by (simp add: MAX_BITS_def)
  moreover have "1 \<le> n \<and> n \<le> MAX_BITS" if "effective_length parse' req' = Inr n" for req' n
    using that resolve_length_range [of parse']
    by (auto simp: effective_length_def split: sum.splits)
  ultimately show ?thesis by (simp add: MAX_BITS_def)
qed

text \<open>The request \<^verbatim>\<open>/generate?length=99999999\<close>, its value read as the number it spells.\<close>

theorem effective_length_clamped_witness:
  "effective_length [''99999999'' \<mapsto> 99999999] \<lparr>args_length = Some ''99999999'', body = NotJson\<rparr>
     = Inr 262144"
proof -
  have r: "read_length \<lparr>args_length = Some ''99999999'', body = NotJson\<rparr> = Inr (PyStr ''99999999'')"
    by (simp add: read_length_def)
  have p: "py_int [''99999999'' \<mapsto> 99999999] (PyStr ''99999999'') = Some 99999999"
    by simp
  show ?thesis
    using effective_length_clamped [OF r p] by (simp add: MAX_BITS_def)
qed

text \<open>
  Claim C1, at the request it fails on. A request with no \<^verbatim>\<open>length\<close> in its query string
  and a body that is not JSON: \<^verbatim>\<open>length\<close> is then \<open>False\<close>, not \<open>None\<close>, \<^verbatim>\<open>int(False)\<close> is
  \<open>0\<close>, and the effective length is \<open>1\<close>, not \<^verbatim>\<open>DEFAULT_BITS\<close>. The same holds of an empty
  \<^verbatim>\<open>length=\<close> in the query string, whatever the built-in makes of strings.
\<close>

theorem effective_length_absent_plain_request:
  "effective_length parse \<lparr>args_length = None, body = NotJson\<rparr> = Inr 1
   \<and> effective_length parse \<lparr>args_length = Some [], body = NotJson\<rparr> = Inr 1
   \<and> DEFAULT_BITS = 256"
  by (simp add: effective_length_def read_length_def json_length_def resolve_length_def
      MAX_BITS_def DEFAULT_BITS_def)

end
